theory Spec2Isabelle
  imports Main "HOL-Library.Monad_Syntax"
begin

section \<open>Data model\<close>

text \<open>
  \<^verbatim>\<open>template<typename T, std::size_t Cols, std::size_t Rows> class Matrix\<close> has one data
  member, \<^verbatim>\<open>std::vector<T> data\<close>. The template parameters \<open>Cols\<close> and \<open>Rows\<close> are fixed
  per value, so the record carries them beside the storage.

  Indices and loop counters are \<^verbatim>\<open>int\<close> in the source and are mixed with \<^verbatim>\<open>std::size_t\<close>;
  the model uses \<open>nat\<close>, which is exact for non-negative indices and dimensions that fit
  an \<^verbatim>\<open>int\<close>. The element type is a type variable with the arithmetic the operation
  needs; where the source mixes element types \<open>T\<close> and \<open>U\<close>, the operands are taken at the
  common type \<^verbatim>\<open>Return\<close> to which C++ converts both before it applies the operator.

  Reading or writing a \<^verbatim>\<open>std::vector\<close> outside its bounds is undefined behaviour; the
  model returns \<open>None\<close> there, so every operation that indexes returns an option.
  \<open>None\<close> is also the value of an operator whose body is ill-formed, so that no
  instantiation of it exists and a call of it has no result.
\<close>

record 'a Matrix =
  Cols :: nat
  Rows :: nat
  data :: "'a list"

text \<open>The invariant of the data model: the storage holds exactly \<open>Cols * Rows\<close> elements.\<close>

definition Matrix_inv :: "'a Matrix \<Rightarrow> bool" where
  "Matrix_inv m \<longleftrightarrow> length (data m) = Cols m * Rows m"

subsection \<open>Construction\<close>

text \<open>\<^verbatim>\<open>Matrix() : data(Cols * Rows, 0) {}\<close>\<close>

definition Matrix_default :: "nat \<Rightarrow> nat \<Rightarrow> ('a::zero) Matrix" where
  "Matrix_default c r = \<lparr>Cols = c, Rows = r, data = replicate (c * r) 0\<rparr>"

text \<open>
  \<^verbatim>\<open>std::vector<T>::resize(n)\<close>: keeps the first \<open>n\<close> elements of a longer vector, appends
  value-initialised (zero) elements to a shorter one.
\<close>

definition resize :: "nat \<Rightarrow> ('a::zero) list \<Rightarrow> 'a list" where
  "resize n xs = (if n \<le> length xs then take n xs else xs @ replicate (n - length xs) 0)"

text \<open>\<^verbatim>\<open>Matrix(std::initializer_list<T> il) : data(il) { data.resize(Cols * Rows); }\<close>\<close>

definition Matrix_il :: "nat \<Rightarrow> nat \<Rightarrow> ('a::zero) list \<Rightarrow> 'a Matrix" where
  "Matrix_il c r il = \<lparr>Cols = c, Rows = r, data = resize (c * r) il\<rparr>"

subsection \<open>Element access\<close>

text \<open>
  \<^verbatim>\<open>const T& operator()(int col, int row) const { return data[col + row * Cols]; }\<close>
\<close>

definition at :: "'a Matrix \<Rightarrow> nat \<Rightarrow> nat \<Rightarrow> 'a option" where
  "at m col row =
     (let idx = col + row * Cols m
      in if idx < length (data m) then Some (data m ! idx) else None)"

text \<open>
  \<^verbatim>\<open>T& operator()(int col, int row) { return data[col + row * Cols]; }\<close>, written through:
  \<^verbatim>\<open>m(col, row) = v\<close>.
\<close>

definition at_put :: "'a Matrix \<Rightarrow> nat \<Rightarrow> nat \<Rightarrow> 'a \<Rightarrow> 'a Matrix option" where
  "at_put m col row v =
     (let idx = col + row * Cols m
      in if idx < length (data m) then Some (m\<lparr>data := (data m)[idx := v]\<rparr>) else None)"

definition cols :: "'a Matrix \<Rightarrow> nat" where
  "cols m = Cols m"

definition rows :: "'a Matrix \<Rightarrow> nat" where
  "rows m = Rows m"

subsection \<open>Loops\<close>

text \<open>
  \<^verbatim>\<open>for(int i = i0; i < n; ++i) body\<close> over a state \<open>s\<close>; a body that runs into undefined
  behaviour ends the loop with \<open>None\<close>.
\<close>

function for_loop :: "nat \<Rightarrow> nat \<Rightarrow> (nat \<Rightarrow> 's \<Rightarrow> 's option) \<Rightarrow> 's \<Rightarrow> 's option" where
  "for_loop i n body s =
     (if i < n
      then (case body i s of None \<Rightarrow> None | Some s' \<Rightarrow> for_loop (Suc i) n body s')
      else Some s)"
  by pat_completeness auto
termination
  by (relation "measure (\<lambda>(i, n, body, s). n - i)") auto

declare for_loop.simps [simp del]

subsection \<open>identity and transpose\<close>

text \<open>
  \<^verbatim>\<open>Matrix<T, Size, Size> id; for(int i = 0; i < Size; ++i) id(i, i) = 1; return id;\<close>
\<close>

definition identity :: "nat \<Rightarrow> ('a::{zero,one}) Matrix option" where
  "identity Size =
     for_loop 0 Size (\<lambda>i id. at_put id i i 1) (Matrix_default Size Size)"

text \<open>
  \<^verbatim>\<open>Matrix<T, Rows, Cols> t;
  for(int i = 0; i < Rows; ++i) for(int j = 0; j < Cols; ++j) t(i, j) = m(j, i);
  return t;\<close>
\<close>

definition transpose_m :: "('a::zero) Matrix \<Rightarrow> 'a Matrix option" where
  "transpose_m m =
     for_loop 0 (Rows m)
       (\<lambda>i t. for_loop 0 (Cols m)
          (\<lambda>j t. do { v \<leftarrow> at m j i; at_put t i j v }) t)
       (Matrix_default (Rows m) (Cols m))"

subsection \<open>slice\<close>

text \<open>
  The inner loop of \<open>slice\<close>, over two iterators (offsets into the two vectors):
  \<^verbatim>\<open>for(; thisRow != thisRowEnd; ++thisRow, ++slicedRow) *slicedRow = *thisRow;\<close>
\<close>

function copy_row :: "'a list \<Rightarrow> nat \<Rightarrow> nat \<Rightarrow> nat \<Rightarrow> 'a list \<Rightarrow> 'a list option" where
  "copy_row src thisRow thisRowEnd slicedRow dst =
     (if thisRow \<noteq> thisRowEnd
      then (if thisRow < length src \<and> slicedRow < length dst
            then copy_row src (Suc thisRow) thisRowEnd (Suc slicedRow)
                   (dst[slicedRow := src ! thisRow])
            else None)
      else Some dst)"
  by pat_completeness auto
termination
  by (relation "measure (\<lambda>(src, thisRow, thisRowEnd, slicedRow, dst). length src - thisRow)") auto

declare copy_row.simps [simp del]

text \<open>
  \<^verbatim>\<open>Matrix<T, NewCols, NewRows> sliced;
  constexpr std::size_t lesserRows = Rows < NewRows ? Rows : NewRows;
  if(Cols != NewCols) { ... row by row ... }
  else { sliced.data.insert(sliced.data.begin(), thisBegin, thisBegin + lesserRows * Cols); }
  return sliced;\<close>

  \<^verbatim>\<open>vector::insert(pos, first, last)\<close> puts the range before \<open>pos\<close> and keeps every element
  the vector had.
\<close>

definition slice :: "('a::zero) Matrix \<Rightarrow> nat \<Rightarrow> nat \<Rightarrow> 'a Matrix option" where
  "slice m NewCols NewRows =
     (let sliced = Matrix_default NewCols NewRows;
          lesserRows = (if Rows m < NewRows then Rows m else NewRows)
      in if Cols m \<noteq> NewCols
         then (let lesserCols = (if Cols m < NewCols then Cols m else NewCols)
               in for_loop 0 lesserRows
                    (\<lambda>i sl.
                       let thisRowBegin = i * Cols m;
                           thisRowEnd = thisRowBegin + lesserCols;
                           slicedRowBegin = i * NewCols
                       in map_option (\<lambda>d. sl\<lparr>data := d\<rparr>)
                            (copy_row (data m) thisRowBegin thisRowEnd slicedRowBegin (data sl)))
                    sliced)
         else (let thisEnd = lesserRows * Cols m
               in if thisEnd \<le> length (data m)
                  then Some (sliced\<lparr>data := take thisEnd (data m) @ data sliced\<rparr>)
                  else None))"

subsection \<open>Element-wise operations\<close>

text \<open>
  \<^verbatim>\<open>std::transform(first, last, d_first, op)\<close> writes \<open>op x\<close> for every \<open>x\<close> of the source
  range into the destination, from \<open>d_first\<close> on; a destination that is too short is
  overrun. The second form reads a second range from \<open>first2\<close> on.
\<close>

fun transform :: "('a \<Rightarrow> 'b) \<Rightarrow> 'a list \<Rightarrow> 'b list \<Rightarrow> 'b list option" where
  "transform f [] ds = Some ds"
| "transform f (x # xs) [] = None"
| "transform f (x # xs) (d # ds) = map_option ((#) (f x)) (transform f xs ds)"

fun transform2 :: "('a \<Rightarrow> 'b \<Rightarrow> 'c) \<Rightarrow> 'a list \<Rightarrow> 'b list \<Rightarrow> 'c list \<Rightarrow> 'c list option" where
  "transform2 f [] ys ds = Some ds"
| "transform2 f (x # xs) (y # ys) (d # ds) = map_option ((#) (f x y)) (transform2 f xs ys ds)"
| "transform2 f (x # xs) ys ds = None"

text \<open>
  \<^verbatim>\<open>operator Matrix<U, Cols, Rows>() const\<close>; \<open>cast\<close> is \<^verbatim>\<open>static_cast<U>\<close>.
\<close>

definition convert :: "('a \<Rightarrow> 'b) \<Rightarrow> 'a Matrix \<Rightarrow> ('b::zero) Matrix option" where
  "convert cast m =
     (let newMatrix = Matrix_default (Cols m) (Rows m)
      in map_option (\<lambda>d. newMatrix\<lparr>data := d\<rparr>) (transform cast (data m) (data newMatrix)))"

definition op_plus :: "('a::{zero,plus}) Matrix \<Rightarrow> 'a Matrix \<Rightarrow> 'a Matrix option" where
  "op_plus m other =
     (let newMatrix = Matrix_default (Cols m) (Rows m)
      in map_option (\<lambda>d. newMatrix\<lparr>data := d\<rparr>)
           (transform2 (\<lambda>lhs rhs. lhs + rhs) (data m) (data other) (data newMatrix)))"

definition op_minus :: "('a::{zero,minus}) Matrix \<Rightarrow> 'a Matrix \<Rightarrow> 'a Matrix option" where
  "op_minus m other =
     (let newMatrix = Matrix_default (Cols m) (Rows m)
      in map_option (\<lambda>d. newMatrix\<lparr>data := d\<rparr>)
           (transform2 (\<lambda>lhs rhs. lhs - rhs) (data m) (data other) (data newMatrix)))"

text \<open>
  \<^verbatim>\<open>Matrix<Return, OtherCols, Rows> newMatrix;
  for(int i = 0; i < newMatrix.rows(); ++i)
    for(int j = 0; j < newMatrix.cols(); ++j)
      for(int k = 0; k < Cols; ++k)
        newMatrix(j, i) += this->operator()(k, i) * other(j, k);
  return newMatrix;\<close>
  The argument is a \<^verbatim>\<open>Matrix<U, OtherCols, Cols>\<close>: its \<open>Rows\<close> is the receiver's \<open>Cols\<close>.
\<close>

definition op_times :: "('a::{zero,plus,times}) Matrix \<Rightarrow> 'a Matrix \<Rightarrow> 'a Matrix option" where
  "op_times m other =
     (let newMatrix = Matrix_default (Cols other) (Rows m)
      in for_loop 0 (rows newMatrix)
           (\<lambda>i nm. for_loop 0 (cols nm)
              (\<lambda>j nm. for_loop 0 (Cols m)
                 (\<lambda>k nm. do {
                    a \<leftarrow> at m k i;
                    b \<leftarrow> at other j k;
                    c \<leftarrow> at nm j i;
                    at_put nm j i (c + a * b)
                  }) nm) nm)
           newMatrix)"

text \<open>
  The lambda expression of the scalar \<^verbatim>\<open>operator*\<close>:
  \<^verbatim>\<open>[](const T& in) { return in * scalar; }\<close>.
  The body of a lambda sees its own parameter and the variables that its capture list
  names. The capture list is an association list from the captured names to their
  values; the body needs \<^verbatim>\<open>scalar\<close>, and where the capture list does not name it the
  lambda is ill-formed and there is no function.
\<close>

definition scalar_lambda :: "(string \<times> 'a) list \<Rightarrow> (('a::times) \<Rightarrow> 'a) option" where
  "scalar_lambda captures =
     map_option (\<lambda>scalar. (\<lambda>x. x * scalar)) (map_of captures ''scalar'')"

text \<open>
  \<^verbatim>\<open>Matrix<Return, Cols, Rows> newMatrix;
  std::transform(matrix.data.begin(), matrix.data.end(), newMatrix.data.begin(),
                 [](const T& in) { return in * scalar; });
  return newMatrix;\<close>
  The capture list of the source is empty: \<^verbatim>\<open>[]\<close>. The parameter \<^verbatim>\<open>scalar\<close> of the
  operator is in scope of the function body only, not of the lambda.
  \<^verbatim>\<open>operator* (const U& scalar, const Matrix<T, Cols, Rows>& matrix)\<close> returns
  \<^verbatim>\<open>matrix * scalar\<close>.
\<close>

definition op_times_scalar :: "('a::{zero,times}) Matrix \<Rightarrow> 'a \<Rightarrow> 'a Matrix option" where
  "op_times_scalar matrix scalar =
     (let newMatrix = Matrix_default (Cols matrix) (Rows matrix)
      in case scalar_lambda [] of
           None \<Rightarrow> None
         | Some f \<Rightarrow>
             map_option (\<lambda>d. newMatrix\<lparr>data := d\<rparr>)
               (transform f (data matrix) (data newMatrix)))"

definition scalar_op_times :: "'a \<Rightarrow> ('a::{zero,times}) Matrix \<Rightarrow> 'a Matrix option" where
  "scalar_op_times scalar matrix = op_times_scalar matrix scalar"

section \<open>Indexing and loop lemmas\<close>

lemma index_less: "c < C \<Longrightarrow> r < R \<Longrightarrow> c + r * C < C * (R::nat)"
proof -
  assume c: "c < C" and r: "r < R"
  have "c + r * C < C + r * C" using c by simp
  also have "\<dots> = (Suc r) * C" by simp
  also have "\<dots> \<le> R * C" using r by (intro mult_le_mono1) simp
  finally show ?thesis by (simp add: mult.commute)
qed

lemma index_inj:
  assumes "c < C" "c' < C" "c + r * C = c' + r' * (C::nat)"
  shows "c = c' \<and> r = r'"
proof -
  have "(c + r * C) mod C = (c' + r' * C) mod C" using assms(3) by simp
  then have cc: "c = c'" using assms(1,2) by simp
  have "(c + r * C) div C = (c' + r' * C) div C" using assms(3) by simp
  then have "r = r'" using assms(1,2) by simp
  with cc show ?thesis by simp
qed

lemma at_Some:
  "c < Cols m \<Longrightarrow> r < Rows m \<Longrightarrow> Cols m * Rows m \<le> length (data m) \<Longrightarrow>
   at m c r = Some (data m ! (c + r * Cols m))"
  using index_less [of c "Cols m" r "Rows m"] by (simp add: at_def)

lemma at_put_Some:
  assumes "col < Cols m" "row < Rows m" "Cols m * Rows m \<le> length (data m)"
  shows "at_put m col row v = Some (m\<lparr>data := (data m)[col + row * Cols m := v]\<rparr>)"
  using index_less [OF assms(1,2)] assms(3) by (simp add: at_put_def)

lemma at_update:
  assumes "col < Cols m" "c < Cols m"
  shows "at (m\<lparr>data := (data m)[col + row * Cols m := v]\<rparr>) c r =
         (if c = col \<and> r = row then map_option (\<lambda>_. v) (at m c r) else at m c r)"
proof (cases "c = col \<and> r = row")
  case True
  then show ?thesis by (simp add: at_def Let_def)
next
  case False
  then have "c + r * Cols m \<noteq> col + row * Cols m"
    using index_inj [of c "Cols m" col r row] assms by blast
  with False show ?thesis by (auto simp add: at_def Let_def)
qed

lemma for_loop_rule:
  assumes "I i s" and "i \<le> n"
    and "\<And>k t. i \<le> k \<Longrightarrow> k < n \<Longrightarrow> I k t \<Longrightarrow> \<exists>t'. body k t = Some t' \<and> I (Suc k) t'"
  shows "\<exists>s'. for_loop i n body s = Some s' \<and> I n s'"
  using assms
proof (induction i n body s rule: for_loop.induct)
  case (1 i n body s)
  show ?case
  proof (cases "i < n")
    case True
    from "1.prems"(3) [of i s] True "1.prems"(1)
    obtain t where t: "body i s = Some t" "I (Suc i) t" by auto
    have "\<exists>s'. for_loop (Suc i) n body t = Some s' \<and> I n s'"
    proof (rule "1.IH" [OF True t(1) t(2)])
      show "Suc i \<le> n" using True by simp
    next
      fix k u assume "Suc i \<le> k" "k < n" "I k u"
      then show "\<exists>t'. body k u = Some t' \<and> I (Suc k) t'"
        using "1.prems"(3) [of k u] by simp
    qed
    then show ?thesis using True t(1) by (subst for_loop.simps) simp
  next
    case False
    with "1.prems"(2) have "i = n" by simp
    then show ?thesis using "1.prems"(1) by (subst for_loop.simps) simp
  qed
qed

lemma Matrix_eqI:
  assumes "Matrix_inv a" "Matrix_inv b" "Cols a = Cols b" "Rows a = Rows b"
    and "\<And>c r. c < Cols a \<Longrightarrow> r < Rows a \<Longrightarrow> at a c r = at b c r"
  shows "data a = data b"
proof (rule nth_equalityI)
  show "length (data a) = length (data b)" using assms(1-4) by (simp add: Matrix_inv_def)
next
  fix k assume k: "k < length (data a)"
  then have kk: "k < Cols a * Rows a" using assms(1) by (simp add: Matrix_inv_def)
  then have C: "0 < Cols a" by (cases "Cols a") simp_all
  have c: "k mod Cols a < Cols a" using C by simp
  have r: "k div Cols a < Rows a" using kk C by (simp add: less_mult_imp_div_less mult.commute)
  have "at a (k mod Cols a) (k div Cols a) = at b (k mod Cols a) (k div Cols a)"
    using assms(5) [OF c r] .
  moreover have "k mod Cols a + k div Cols a * Cols a = k" by simp
  ultimately show "data a ! k = data b ! k"
    using k assms(1-4) by (simp add: at_def Matrix_inv_def)
qed

section \<open>Properties of literal construction\<close>

lemma Matrix_il_inv: "Matrix_inv (Matrix_il c r il)"
  by (simp add: Matrix_inv_def Matrix_il_def resize_def)

lemma Matrix_default_inv: "Matrix_inv (Matrix_default c r)"
  by (simp add: Matrix_inv_def Matrix_default_def)

text \<open>
  C6: a literal sequence of at most \<open>Cols * Rows\<close> values fills the storage in linear
  order and the rest is zero; the element at \<open>(col, row)\<close> is the one at linear index
  \<open>col + row * Cols\<close>. The 2 by 2 integer matrix built from \<open>[1, 2, 3, 4]\<close> has
  \<open>(0,0) = 1\<close>, \<open>(1,0) = 2\<close>, \<open>(0,1) = 3\<close>, \<open>(1,1) = 4\<close>.
\<close>

theorem literal_construction_row_major:
  "length il \<le> c * r \<Longrightarrow>
     Cols (Matrix_il c r il) = c \<and> Rows (Matrix_il c r il) = r \<and>
     data (Matrix_il c r il) = il @ replicate (c * r - length il) 0 \<and>
     (\<forall>col row. col < c \<longrightarrow> row < r \<longrightarrow>
        at (Matrix_il c r il) col row =
          Some (if col + row * c < length il then il ! (col + row * c) else 0)) \<and>
     at (Matrix_il 2 2 [1, 2, 3, 4 :: int]) 0 0 = Some 1 \<and>
     at (Matrix_il 2 2 [1, 2, 3, 4 :: int]) 1 0 = Some 2 \<and>
     at (Matrix_il 2 2 [1, 2, 3, 4 :: int]) 0 1 = Some 3 \<and>
     at (Matrix_il 2 2 [1, 2, 3, 4 :: int]) 1 1 = Some 4"
proof -
  assume len: "length il \<le> c * r"
  let ?m = "Matrix_il c r il"
  have d: "data ?m = il @ replicate (c * r - length il) 0"
    using len by (auto simp add: Matrix_il_def resize_def)
  have el: "at ?m col row = Some (if col + row * c < length il then il ! (col + row * c) else 0)"
    if "col < c" "row < r" for col row
  proof -
    have "col + row * c < c * r" using that by (rule index_less)
    then show ?thesis using len d by (simp add: at_def Matrix_il_def nth_append)
  qed
  have ex: "at (Matrix_il 2 2 [1, 2, 3, 4 :: int]) 0 0 = Some 1"
    "at (Matrix_il 2 2 [1, 2, 3, 4 :: int]) 1 0 = Some 2"
    "at (Matrix_il 2 2 [1, 2, 3, 4 :: int]) 0 1 = Some 3"
    "at (Matrix_il 2 2 [1, 2, 3, 4 :: int]) 1 1 = Some 4"
    by (simp_all add: at_def Matrix_il_def resize_def)
  show ?thesis using d el ex by (simp add: Matrix_il_def)
qed

theorem literal_construction_row_major_witness:
  "length [7, 8, 9 :: int] \<le> 2 * 2 \<and>
   data (Matrix_il 2 2 [7, 8, 9 :: int]) = [7, 8, 9, 0] \<and>
   at (Matrix_il 2 2 [7, 8, 9 :: int]) 0 1 = Some 9 \<and>
   at (Matrix_il 2 2 [7, 8, 9 :: int]) 1 1 = Some 0"
proof -
  have h: "length [7, 8, 9 :: int] \<le> 2 * 2" by simp
  show ?thesis using h literal_construction_row_major [OF h] by simp
qed

text \<open>
  C10: a literal sequence longer than \<open>Cols * Rows\<close> is cut to its first \<open>Cols * Rows\<close>
  values, in order.
\<close>

theorem literal_construction_truncates:
  "c * r < length il \<Longrightarrow>
     data (Matrix_il c r il) = take (c * r) il \<and>
     length (data (Matrix_il c r il)) = c * r \<and>
     (\<forall>i<c * r. data (Matrix_il c r il) ! i = il ! i)"
  by (simp add: Matrix_il_def resize_def)

theorem literal_construction_truncates_witness:
  "2 * 1 < length [5, 6, 7 :: int] \<and>
   data (Matrix_il 2 1 [5, 6, 7 :: int]) = [5, 6] \<and>
   data (Matrix_il 2 1 [5, 6, 7 :: int]) ! 1 = 6"
proof -
  have h: "2 * 1 < length [5, 6, 7 :: int]" by simp
  show ?thesis using h literal_construction_truncates [OF h] by simp
qed

section \<open>Writing through the accessor\<close>

text \<open>
  C9: writing \<open>v\<close> through the mutable accessor at an in-range position \<open>(col, row)\<close>
  succeeds, stores \<open>v\<close> at linear index \<open>col + row * Cols\<close> and leaves the dimensions, the
  storage length and every other element as they were.
\<close>

theorem at_put_frame:
  "col < Cols m \<Longrightarrow> row < Rows m \<Longrightarrow> Cols m * Rows m \<le> length (data m) \<Longrightarrow>
     (\<exists>m'. at_put m col row v = Some m' \<and>
        Cols m' = Cols m \<and> Rows m' = Rows m \<and>
        length (data m') = length (data m) \<and>
        data m' ! (col + row * Cols m) = v \<and>
        (\<forall>k<length (data m). k \<noteq> col + row * Cols m \<longrightarrow> data m' ! k = data m ! k) \<and>
        (\<forall>c r. c < Cols m \<longrightarrow> r < Rows m \<longrightarrow> (c, r) \<noteq> (col, row) \<longrightarrow>
           at m' c r = at m c r))"
proof -
  assume col: "col < Cols m" and row: "row < Rows m"
    and len: "Cols m * Rows m \<le> length (data m)"
  let ?m' = "m\<lparr>data := (data m)[col + row * Cols m := v]\<rparr>"
  have idx: "col + row * Cols m < length (data m)"
    using index_less [OF col row] len by simp
  have put: "at_put m col row v = Some ?m'"
    using col row len by (rule at_put_Some)
  have other: "at ?m' c r = at m c r" if "c < Cols m" "(c, r) \<noteq> (col, row)" for c r
    using at_update [OF col that(1), of row v r] that(2) by auto
  show ?thesis using put idx other by simp
qed

theorem at_put_frame_witness:
  "at_put (Matrix_il 2 2 [1, 2, 3, 4 :: int]) 1 0 9 = Some (Matrix_il 2 2 [1, 9, 3, 4])"
proof -
  let ?m = "Matrix_il 2 2 [1, 2, 3, 4 :: int]"
  have h: "1 < Cols ?m" "0 < Rows ?m" "Cols ?m * Rows ?m \<le> length (data ?m)"
    by (simp_all add: Matrix_il_def resize_def)
  from at_put_frame [OF h, of 9] obtain m' where
    m': "at_put ?m 1 0 9 = Some m'" by blast
  then show ?thesis by (simp add: at_put_def Matrix_il_def resize_def)
qed

section \<open>Properties of the element-wise operations\<close>

lemma transform_map:
  "length xs = length ds \<Longrightarrow> transform f xs ds = Some (map f xs)"
  by (induction f xs ds rule: transform.induct) simp_all

lemma transform2_map:
  "length xs = length ys \<Longrightarrow> length xs = length ds \<Longrightarrow>
   transform2 f xs ys ds = Some (map (\<lambda>(x, y). f x y) (zip xs ys))"
  by (induction f xs ys ds rule: transform2.induct) simp_all

lemma op_plus_eq:
  "Matrix_inv A \<Longrightarrow> Matrix_inv B \<Longrightarrow> Cols B = Cols A \<Longrightarrow> Rows B = Rows A \<Longrightarrow>
   op_plus A B =
     Some \<lparr>Cols = Cols A, Rows = Rows A, data = map (\<lambda>(x, y). x + y) (zip (data A) (data B))\<rparr>"
  by (simp add: op_plus_def Matrix_default_def Matrix_inv_def transform2_map)

lemma op_minus_eq:
  "Matrix_inv A \<Longrightarrow> Matrix_inv B \<Longrightarrow> Cols B = Cols A \<Longrightarrow> Rows B = Rows A \<Longrightarrow>
   op_minus A B =
     Some \<lparr>Cols = Cols A, Rows = Rows A, data = map (\<lambda>(x, y). x - y) (zip (data A) (data B))\<rparr>"
  by (simp add: op_minus_def Matrix_default_def Matrix_inv_def transform2_map)

lemma convert_eq:
  "Matrix_inv A \<Longrightarrow>
   convert cast A = Some \<lparr>Cols = Cols A, Rows = Rows A, data = map cast (data A)\<rparr>"
  by (simp add: convert_def Matrix_default_def Matrix_inv_def transform_map)

lemma scalar_lambda_not_captured: "scalar_lambda [] = None"
  by (simp add: scalar_lambda_def)

lemma scalar_lambda_captured:
  "scalar_lambda [(''scalar'', s)] = Some (\<lambda>x. x * s)"
  by (simp add: scalar_lambda_def)

lemma op_times_scalar_no_result:
  "op_times_scalar A s = None" "scalar_op_times s A = None"
  by (simp_all add: scalar_op_times_def op_times_scalar_def scalar_lambda_not_captured)

text \<open>
  C7: \<open>A * s\<close> is to be the matrix of the dimensions of \<open>A\<close> with \<open>A(c, r) * s\<close> at every
  position, and \<open>s * A\<close> the same matrix; the 1 by 2 vector \<open>[2, 3]\<close> times \<open>4\<close> is to be
  \<open>[8, 12]\<close>. The code does not do this: the lambda that multiplies an element by the
  scalar has an empty capture list, so it cannot name \<^verbatim>\<open>scalar\<close>, the operator is
  ill-formed for every element and scalar type, and neither \<open>[2, 3] * 4\<close> nor
  \<open>4 * [2, 3]\<close> has a result. The lambda with \<^verbatim>\<open>scalar\<close> captured is the function the
  claim describes (\<open>scalar_lambda_captured\<close>).
\<close>

theorem scalar_multiplication_no_result:
  "op_times_scalar (Matrix_il 1 2 [2, 3 :: int]) 4 = None \<and>
   scalar_op_times 4 (Matrix_il 1 2 [2, 3 :: int]) = None \<and>
   op_times_scalar (Matrix_il 1 2 [2, 3 :: int]) 4 \<noteq> Some (Matrix_il 1 2 [8, 12])"
  by (simp add: scalar_op_times_def op_times_scalar_def scalar_lambda_def)

text \<open>
  C8: for matrices \<open>A\<close> and \<open>B\<close> of the same dimensions that satisfy the storage
  invariant, \<open>A + B\<close> and \<open>A - B\<close> hold at every linear index \<open>i\<close> the sum and the
  difference of the operands' elements at \<open>i\<close>; \<open>A\<close> plus the default-constructed matrix
  is \<open>A\<close>, and \<open>A - A\<close> is the default-constructed matrix.
\<close>

theorem additive_identity:
  fixes A :: "('a::group_add) Matrix"
  shows "Matrix_inv A \<Longrightarrow> Matrix_inv B \<Longrightarrow> Cols B = Cols A \<Longrightarrow> Rows B = Rows A \<Longrightarrow>
     (\<exists>S D. op_plus A B = Some S \<and> op_minus A B = Some D \<and>
        Cols S = Cols A \<and> Rows S = Rows A \<and> Matrix_inv S \<and>
        Cols D = Cols A \<and> Rows D = Rows A \<and> Matrix_inv D \<and>
        (\<forall>i<Cols A * Rows A.
           data S ! i = data A ! i + data B ! i \<and> data D ! i = data A ! i - data B ! i)) \<and>
     op_plus A (Matrix_default (Cols A) (Rows A)) = Some A \<and>
     op_minus A A = Some (Matrix_default (Cols A) (Rows A))"
proof -
  assume A: "Matrix_inv A" and B: "Matrix_inv B"
    and dims: "Cols B = Cols A" "Rows B = Rows A"
  let ?Z = "Matrix_default (Cols A) (Rows A) :: 'a Matrix"
  have lenA: "length (data A) = Cols A * Rows A" using A by (simp add: Matrix_inv_def)
  have lenB: "length (data B) = Cols A * Rows A" using B dims by (simp add: Matrix_inv_def)
  have pair: "\<exists>S D. op_plus A B = Some S \<and> op_minus A B = Some D \<and>
        Cols S = Cols A \<and> Rows S = Rows A \<and> Matrix_inv S \<and>
        Cols D = Cols A \<and> Rows D = Rows A \<and> Matrix_inv D \<and>
        (\<forall>i<Cols A * Rows A.
           data S ! i = data A ! i + data B ! i \<and> data D ! i = data A ! i - data B ! i)"
    using lenA lenB
    by (simp add: op_plus_eq [OF A B dims] op_minus_eq [OF A B dims] Matrix_inv_def)
  have Z: "Matrix_inv ?Z" "Cols ?Z = Cols A" "Rows ?Z = Rows A"
    by (simp_all add: Matrix_default_inv) (simp_all add: Matrix_default_def)
  have "map (\<lambda>(x, y). x + y) (zip (data A) (data ?Z)) = data A"
    using lenA by (intro nth_equalityI) (simp_all add: Matrix_default_def)
  then have plus0: "op_plus A ?Z = Some A"
    by (simp add: op_plus_eq [OF A Z])
  have "map (\<lambda>(x, y). x - y) (zip (data A) (data A)) = replicate (Cols A * Rows A) 0"
    using lenA by (intro nth_equalityI) simp_all
  then have minus: "op_minus A A = Some ?Z"
    by (simp add: op_minus_eq [OF A A] Matrix_default_def)
  show ?thesis using pair plus0 minus by simp
qed

theorem additive_identity_witness:
  "Matrix_inv (Matrix_il 2 2 [5, 7, 1, 0 :: int]) \<and> Matrix_inv (Matrix_il 2 2 [1, 2, 3, 4 :: int]) \<and>
   op_plus (Matrix_il 2 2 [5, 7, 1, 0 :: int]) (Matrix_il 2 2 [1, 2, 3, 4]) = Some (Matrix_il 2 2 [6, 9, 4, 4]) \<and>
   op_minus (Matrix_il 2 2 [5, 7, 1, 0 :: int]) (Matrix_il 2 2 [1, 2, 3, 4]) = Some (Matrix_il 2 2 [4, 5, - 2, - 4]) \<and>
   op_plus (Matrix_il 2 2 [5, 7, 1, 0 :: int]) (Matrix_default 2 2) = Some (Matrix_il 2 2 [5, 7, 1, 0]) \<and>
   op_minus (Matrix_il 2 2 [5, 7, 1, 0 :: int]) (Matrix_il 2 2 [5, 7, 1, 0]) = Some (Matrix_default 2 2)"
proof -
  let ?A = "Matrix_il 2 2 [5, 7, 1, 0 :: int]" and ?B = "Matrix_il 2 2 [1, 2, 3, 4 :: int]"
  have h: "Matrix_inv ?A" "Matrix_inv ?B" "Cols ?B = Cols ?A" "Rows ?B = Rows ?A"
    by (simp_all add: Matrix_il_inv) (simp_all add: Matrix_il_def)
  have d: "Cols ?A = 2" "Rows ?A = 2" by (simp_all add: Matrix_il_def)
  have pm: "op_plus ?A ?B = Some (Matrix_il 2 2 [6, 9, 4, 4])"
    "op_minus ?A ?B = Some (Matrix_il 2 2 [4, 5, - 2, - 4])"
    by (simp_all add: op_plus_def op_minus_def Matrix_default_def Matrix_il_def resize_def
        eval_nat_numeral)
  show ?thesis using h(1,2) pm additive_identity [OF h] by (simp add: d)
qed

section \<open>Properties of identity and transpose\<close>

lemma Matrix_default_at:
  "c < C \<Longrightarrow> r < R \<Longrightarrow> at (Matrix_default C R) c r = Some 0"
  using index_less [of c C r R] by (simp add: at_def Matrix_default_def)

lemma at_put_step:
  assumes dims: "Cols t = C" "Rows t = R" "length (data t) = C * R"
    and el: "\<forall>c<C. \<forall>r<R. at t c r = Some (f c r)"
    and pos: "col < C" "row < R"
  shows "\<exists>t'. at_put t col row v = Some t' \<and> Cols t' = C \<and> Rows t' = R \<and>
           length (data t') = C * R \<and>
           (\<forall>c<C. \<forall>r<R. at t' c r = Some (if c = col \<and> r = row then v else f c r))"
proof -
  let ?t' = "t\<lparr>data := (data t)[col + row * Cols t := v]\<rparr>"
  have put: "at_put t col row v = Some ?t'"
    using pos dims by (intro at_put_Some) simp_all
  have "at ?t' c r = Some (if c = col \<and> r = row then v else f c r)"
    if "c < C" "r < R" for c r
    using at_update [of col t c row v r] that pos dims(1) el by auto
  then show ?thesis using put dims by simp
qed

lemma identity_elems:
  "\<exists>I. identity N = Some I \<and> Cols I = N \<and> Rows I = N \<and> Matrix_inv I \<and>
       (\<forall>c<N. \<forall>r<N. at I c r = Some (if c = r then 1 else 0))"
proof -
  let ?Inv = "\<lambda>i t. Cols t = N \<and> Rows t = N \<and> length (data t) = N * N \<and>
       (\<forall>c<N. \<forall>r<N. at t c r = Some (if c = r \<and> c < i then 1 else 0))"
  have init: "?Inv 0 (Matrix_default N N)"
    by (simp add: Matrix_default_at) (simp add: Matrix_default_def)
  have step: "\<exists>t'. at_put t k k 1 = Some t' \<and> ?Inv (Suc k) t'"
    if "k < N" "?Inv k t" for k t
  proof -
    from that have dims: "Cols t = N" "Rows t = N" "length (data t) = N * N"
      and el: "\<forall>c<N. \<forall>r<N. at t c r = Some (if c = r \<and> c < k then 1 else 0)"
      by simp_all
    from at_put_step [OF dims el that(1) that(1), of 1]
    obtain t' where t': "at_put t k k 1 = Some t'" "Cols t' = N" "Rows t' = N"
      "length (data t') = N * N"
      "\<forall>c<N. \<forall>r<N. at t' c r =
          Some (if c = k \<and> r = k then 1 else if c = r \<and> c < k then 1 else 0)"
      by blast
    have "at t' c r = Some (if c = r \<and> c < Suc k then 1 else 0)" if "c < N" "r < N" for c r
      using t'(5) that by (auto simp add: less_Suc_eq)
    then show ?thesis using t'(1-4) by simp
  qed
  have "\<exists>s'. for_loop 0 N (\<lambda>i id. at_put id i i 1) (Matrix_default N N) = Some s' \<and> ?Inv N s'"
  proof (rule for_loop_rule [where I = ?Inv, OF init])
    show "0 \<le> N" by simp
  next
    fix k t assume "k < N" and "?Inv k t"
    then show "\<exists>t'. at_put t k k 1 = Some t' \<and> ?Inv (Suc k) t'" by (rule step)
  qed
  then show ?thesis by (auto simp add: identity_def Matrix_inv_def)
qed

lemma transpose_m_elems:
  assumes inv: "Matrix_inv m"
  shows "\<exists>t. transpose_m m = Some t \<and> Cols t = Rows m \<and> Rows t = Cols m \<and> Matrix_inv t \<and>
           (\<forall>i<Rows m. \<forall>j<Cols m. at t i j = Some (data m ! (j + i * Cols m)))"
proof -
  let ?C = "Cols m" and ?R = "Rows m"
  let ?dims = "\<lambda>t. Cols t = ?R \<and> Rows t = ?C \<and> length (data t) = ?R * ?C"
  let ?Inner = "\<lambda>i j t. ?dims t \<and>
       (\<forall>c<?R. \<forall>r<?C. at t c r =
          Some (if c < i \<or> (c = i \<and> r < j) then data m ! (r + c * ?C) else 0))"
  let ?Outer = "\<lambda>i t. ?dims t \<and>
       (\<forall>c<?R. \<forall>r<?C. at t c r = Some (if c < i then data m ! (r + c * ?C) else 0))"
  let ?body = "\<lambda>i j t. do { v \<leftarrow> at m j i; at_put t i j v }"
  have len: "?C * ?R \<le> length (data m)" using inv by (simp add: Matrix_inv_def)
  have inner_step: "\<exists>t'. ?body i j t = Some t' \<and> ?Inner i (Suc j) t'"
    if "i < ?R" "j < ?C" "?Inner i j t" for i j t
  proof -
    let ?v = "data m ! (j + i * ?C)"
    let ?f = "\<lambda>c r. if c < i \<or> (c = i \<and> r < j) then data m ! (r + c * ?C) else 0"
    have rd: "at m j i = Some ?v" using that(2,1) len by (rule at_Some)
    from that(3) have dims: "Cols t = ?R" "Rows t = ?C" "length (data t) = ?R * ?C"
      and el: "\<forall>c<?R. \<forall>r<?C. at t c r = Some (?f c r)"
      by simp_all
    from at_put_step [OF dims el that(1) that(2), of ?v]
    obtain t' where t': "at_put t i j ?v = Some t'" "Cols t' = ?R" "Rows t' = ?C"
      "length (data t') = ?R * ?C"
      "\<forall>c<?R. \<forall>r<?C. at t' c r = Some (if c = i \<and> r = j then ?v else ?f c r)"
      by blast
    have "at t' c r = Some (if c < i \<or> (c = i \<and> r < Suc j) then data m ! (r + c * ?C) else 0)"
      if "c < ?R" "r < ?C" for c r
      using t'(5) that by (auto simp add: less_Suc_eq)
    then show ?thesis using rd t'(1-4) by simp
  qed
  have outer_step: "\<exists>t'. for_loop 0 ?C (?body i) t = Some t' \<and> ?Outer (Suc i) t'"
    if "i < ?R" "?Outer i t" for i t
  proof -
    have init: "?Inner i 0 t" using that(2) by simp
    have "\<exists>t'. for_loop 0 ?C (?body i) t = Some t' \<and> ?Inner i ?C t'"
    proof (rule for_loop_rule [where I = "?Inner i", OF init])
      show "0 \<le> ?C" by simp
    next
      fix j u assume "j < ?C" and "?Inner i j u"
      with that(1) show "\<exists>t'. ?body i j u = Some t' \<and> ?Inner i (Suc j) t'"
        by (rule inner_step)
    qed
    then obtain t' where t': "for_loop 0 ?C (?body i) t = Some t'" "?Inner i ?C t'" by blast
    have "?Outer (Suc i) t'" using t'(2) by (auto simp add: less_Suc_eq)
    then show ?thesis using t'(1) by blast
  qed
  have init: "?Outer 0 (Matrix_default ?R ?C)"
    by (simp add: Matrix_default_at) (simp add: Matrix_default_def)
  have "\<exists>t. for_loop 0 ?R (\<lambda>i t. for_loop 0 ?C (?body i) t) (Matrix_default ?R ?C) = Some t \<and>
          ?Outer ?R t"
  proof (rule for_loop_rule [where I = ?Outer, OF init])
    show "0 \<le> ?R" by simp
  next
    fix i t assume "i < ?R" and "?Outer i t"
    then show "\<exists>t'. for_loop 0 ?C (?body i) t = Some t' \<and> ?Outer (Suc i) t'"
      by (rule outer_step)
  qed
  then show ?thesis by (auto simp add: transpose_m_def Matrix_inv_def)
qed

text \<open>
  C5: for a matrix \<open>A\<close> that satisfies the storage invariant, \<open>transpose\<close> returns a
  \<open>Rows\<close> by \<open>Cols\<close> matrix \<open>t\<close> with \<open>t(i, j) = A(j, i)\<close> at every valid position, and
  transposing \<open>t\<close> returns a matrix of the dimensions of \<open>A\<close> that equals \<open>A\<close>, element
  by element and as a value. The source takes its argument by reference to const and
  reads it through the const accessor only; the model's \<open>at\<close> returns an element and no
  matrix, so the argument is the same value after the call.
\<close>

theorem transpose_involution:
  "Matrix_inv A \<Longrightarrow>
     (\<exists>t. transpose_m A = Some t \<and> Cols t = Rows A \<and> Rows t = Cols A \<and> Matrix_inv t \<and>
        (\<forall>i<Rows A. \<forall>j<Cols A. \<exists>v. at A j i = Some v \<and> at t i j = Some v) \<and>
        (\<exists>tt. transpose_m t = Some tt \<and> Cols tt = Cols A \<and> Rows tt = Rows A \<and>
           (\<forall>c<Cols A. \<forall>r<Rows A. at tt c r = at A c r) \<and> tt = A))"
proof -
  assume A: "Matrix_inv A"
  then have len: "Cols A * Rows A \<le> length (data A)" by (simp add: Matrix_inv_def)
  from transpose_m_elems [OF A] obtain t where
    t: "transpose_m A = Some t" "Cols t = Rows A" "Rows t = Cols A" "Matrix_inv t"
    and tel: "\<forall>i<Rows A. \<forall>j<Cols A. at t i j = Some (data A ! (j + i * Cols A))"
    by blast
  have Ael: "at A j i = Some (data A ! (j + i * Cols A))" if "j < Cols A" "i < Rows A" for i j
    using that len by (rule at_Some)
  from transpose_m_elems [OF t(4)] obtain tt where
    tt: "transpose_m t = Some tt" "Cols tt = Rows t" "Rows tt = Cols t" "Matrix_inv tt"
    and ttel: "\<forall>i<Rows t. \<forall>j<Cols t. at tt i j = Some (data t ! (j + i * Cols t))"
    by blast
  have tlen: "Cols t * Rows t \<le> length (data t)" using t(4) by (simp add: Matrix_inv_def)
  have same: "at tt c r = at A c r" if "c < Cols A" "r < Rows A" for c r
  proof -
    have "at tt c r = Some (data t ! (r + c * Cols t))" using ttel that t(2,3) by simp
    also have "\<dots> = at t r c" using at_Some [of r t c] that t(2,3) tlen by simp
    also have "\<dots> = Some (data A ! (c + r * Cols A))" using tel that by simp
    also have "\<dots> = at A c r" using Ael [OF that] by simp
    finally show ?thesis .
  qed
  have "data tt = data A"
    using tt(4) A tt(2,3) t(2,3) same by (intro Matrix_eqI) simp_all
  then have eq: "tt = A" using tt(2,3) t(2,3) by simp
  show ?thesis using t tel Ael tt same eq by auto
qed

theorem transpose_involution_witness:
  "Matrix_inv (Matrix_il 3 2 [1, 2, 3, 4, 5, 6 :: int]) \<and>
   transpose_m (Matrix_il 3 2 [1, 2, 3, 4, 5, 6 :: int]) = Some (Matrix_il 2 3 [1, 4, 2, 5, 3, 6]) \<and>
   transpose_m (Matrix_il 2 3 [1, 4, 2, 5, 3, 6 :: int]) = Some (Matrix_il 3 2 [1, 2, 3, 4, 5, 6])"
proof -
  let ?A = "Matrix_il 3 2 [1, 2, 3, 4, 5, 6 :: int]"
  have h: "Matrix_inv ?A" by (rule Matrix_il_inv)
  have t: "transpose_m ?A = Some (Matrix_il 2 3 [1, 4, 2, 5, 3, 6])" by code_simp
  show ?thesis using h t transpose_involution [OF h] by simp
qed

section \<open>Properties of matrix multiplication\<close>

lemma op_times_elems:
  fixes m other :: "('a::{zero,plus,times}) Matrix"
  assumes m: "Matrix_inv m" and other: "Matrix_inv other" and inner: "Rows other = Cols m"
  shows "\<exists>P. op_times m other = Some P \<and> Cols P = Cols other \<and> Rows P = Rows m \<and>
           Matrix_inv P \<and>
           (\<forall>j<Cols other. \<forall>i<Rows m. at P j i =
              Some (foldl (\<lambda>acc k. acc + data m ! (k + i * Cols m) *
                                         data other ! (j + k * Cols other))
                      0 [0..<Cols m]))"
proof -
  let ?C = "Cols m" and ?R = "Rows m" and ?OC = "Cols other"
  let ?p = "\<lambda>i j k. data m ! (k + i * ?C) * data other ! (j + k * ?OC)"
  let ?acc = "\<lambda>i j n. foldl (\<lambda>acc k. acc + ?p i j k) 0 [0..<n]"
  let ?dims = "\<lambda>nm. Cols nm = ?OC \<and> Rows nm = ?R \<and> length (data nm) = ?OC * ?R"
  let ?K = "\<lambda>i j k nm. ?dims nm \<and>
       (\<forall>c<?OC. \<forall>r<?R. at nm c r =
          Some (if r < i \<or> (r = i \<and> c < j) then ?acc r c ?C
                else if r = i \<and> c = j then ?acc i j k else 0))"
  let ?J = "\<lambda>i j nm. ?dims nm \<and>
       (\<forall>c<?OC. \<forall>r<?R. at nm c r =
          Some (if r < i \<or> (r = i \<and> c < j) then ?acc r c ?C else 0))"
  let ?I = "\<lambda>i nm. ?dims nm \<and>
       (\<forall>c<?OC. \<forall>r<?R. at nm c r = Some (if r < i then ?acc r c ?C else 0))"
  let ?body = "\<lambda>i j k nm. do {
                    a \<leftarrow> at m k i;
                    b \<leftarrow> at other j k;
                    c \<leftarrow> at nm j i;
                    at_put nm j i (c + a * b)
                  }"
  have lenm: "?C * ?R \<le> length (data m)" using m by (simp add: Matrix_inv_def)
  have leno: "Cols other * Rows other \<le> length (data other)"
    using other by (simp add: Matrix_inv_def)
  have k_step: "\<exists>nm'. ?body i j k nm = Some nm' \<and> ?K i j (Suc k) nm'"
    if "i < ?R" "j < ?OC" "k < ?C" "?K i j k nm" for i j k nm
  proof -
    let ?f = "\<lambda>c r. if r < i \<or> (r = i \<and> c < j) then ?acc r c ?C
                else if r = i \<and> c = j then ?acc i j k else 0"
    have a: "at m k i = Some (data m ! (k + i * ?C))" using that(3,1) lenm by (rule at_Some)
    have "k < Rows other" using that(3) inner by simp
    with that(2) have b: "at other j k = Some (data other ! (j + k * ?OC))"
      using leno by (rule at_Some)
    from that(4) have dims: "Cols nm = ?OC" "Rows nm = ?R" "length (data nm) = ?OC * ?R"
      and el: "\<forall>c<?OC. \<forall>r<?R. at nm c r = Some (?f c r)"
      by simp_all
    have c: "at nm j i = Some (?acc i j k)" using el that(1,2) by simp
    let ?v = "?acc i j k + ?p i j k"
    from at_put_step [OF dims el that(2) that(1), of ?v]
    obtain nm' where nm': "at_put nm j i ?v = Some nm'" "Cols nm' = ?OC" "Rows nm' = ?R"
      "length (data nm') = ?OC * ?R"
      "\<forall>c<?OC. \<forall>r<?R. at nm' c r = Some (if c = j \<and> r = i then ?v else ?f c r)"
      by blast
    have v: "?acc i j (Suc k) = ?v" by simp
    have "at nm' c r = Some (if r < i \<or> (r = i \<and> c < j) then ?acc r c ?C
                else if r = i \<and> c = j then ?acc i j (Suc k) else 0)"
      if "c < ?OC" "r < ?R" for c r
      unfolding v using nm'(5) that by auto
    then show ?thesis using a b c nm'(1-4) by simp
  qed
  have j_step: "\<exists>nm'. for_loop 0 ?C (?body i j) nm = Some nm' \<and> ?J i (Suc j) nm'"
    if "i < ?R" "j < ?OC" "?J i j nm" for i j nm
  proof -
    have init: "?K i j 0 nm" using that(3) by auto
    have "\<exists>nm'. for_loop 0 ?C (?body i j) nm = Some nm' \<and> ?K i j ?C nm'"
    proof (rule for_loop_rule [where I = "?K i j", OF init])
      show "0 \<le> ?C" by simp
    next
      fix k u assume "k < ?C" and "?K i j k u"
      with that(1,2) show "\<exists>nm'. ?body i j k u = Some nm' \<and> ?K i j (Suc k) nm'"
        by (rule k_step)
    qed
    then obtain nm' where nm': "for_loop 0 ?C (?body i j) nm = Some nm'" "?K i j ?C nm'"
      by blast
    have "?J i (Suc j) nm'" using nm'(2) by (auto simp add: less_Suc_eq)
    then show ?thesis using nm'(1) by blast
  qed
  have i_step: "\<exists>nm'. for_loop 0 (cols nm) (\<lambda>j nm. for_loop 0 ?C (?body i j) nm) nm = Some nm' \<and>
                  ?I (Suc i) nm'"
    if "i < ?R" "?I i nm" for i nm
  proof -
    have init: "?J i 0 nm" using that(2) by simp
    have cols: "cols nm = ?OC" using that(2) by (simp add: cols_def)
    have "\<exists>nm'. for_loop 0 ?OC (\<lambda>j nm. for_loop 0 ?C (?body i j) nm) nm = Some nm' \<and>
             ?J i ?OC nm'"
    proof (rule for_loop_rule [where I = "?J i", OF init])
      show "0 \<le> ?OC" by simp
    next
      fix j u assume "j < ?OC" and "?J i j u"
      with that(1) show "\<exists>nm'. for_loop 0 ?C (?body i j) u = Some nm' \<and> ?J i (Suc j) nm'"
        by (rule j_step)
    qed
    then obtain nm' where
      nm': "for_loop 0 ?OC (\<lambda>j nm. for_loop 0 ?C (?body i j) nm) nm = Some nm'" "?J i ?OC nm'"
      by blast
    have "?I (Suc i) nm'" using nm'(2) by (auto simp add: less_Suc_eq)
    then show ?thesis using nm'(1) cols by simp
  qed
  let ?new = "Matrix_default ?OC ?R :: 'a Matrix"
  have init: "?I 0 ?new"
    by (simp add: Matrix_default_at) (simp add: Matrix_default_def)
  have "\<exists>P. for_loop 0 ?R
          (\<lambda>i nm. for_loop 0 (cols nm) (\<lambda>j nm. for_loop 0 ?C (?body i j) nm) nm) ?new = Some P \<and>
          ?I ?R P"
  proof (rule for_loop_rule [where I = ?I, OF init])
    show "0 \<le> ?R" by simp
  next
    fix i u assume "i < ?R" and "?I i u"
    then show "\<exists>nm'. for_loop 0 (cols u) (\<lambda>j nm. for_loop 0 ?C (?body i j) nm) u = Some nm' \<and>
                  ?I (Suc i) nm'"
      by (rule i_step)
  qed
  moreover have "rows ?new = ?R" by (simp add: rows_def Matrix_default_def)
  ultimately show ?thesis by (auto simp add: op_times_def Matrix_inv_def Let_def)
qed

lemma foldl_plus_sum:
  fixes g :: "nat \<Rightarrow> 'a::comm_monoid_add"
  shows "foldl (\<lambda>acc k. acc + g k) 0 [0..<n] = (\<Sum>k<n. g k)"
  by (induction n) (simp_all add: add.commute)

text \<open>
  C3: for \<open>lhs\<close> of dimensions \<open>Cols\<close> by \<open>Rows\<close> and \<open>rhs\<close> of dimensions \<open>OtherCols\<close> by
  \<open>Cols\<close>, both satisfying the storage invariant, \<open>lhs * rhs\<close> is an \<open>OtherCols\<close> by \<open>Rows\<close>
  matrix; its element at \<open>(j, i)\<close> is the result of adding the products
  \<open>lhs(k, i) * rhs(j, k)\<close> for \<open>k = 0, ..., Cols - 1\<close>, in this order, to an accumulator that
  starts at zero, which is the sum of these products.
\<close>

theorem matrix_multiplication:
  fixes lhs rhs :: "('a::semiring_0) Matrix"
  shows "Matrix_inv lhs \<Longrightarrow> Matrix_inv rhs \<Longrightarrow> Rows rhs = Cols lhs \<Longrightarrow>
     (\<exists>P. op_times lhs rhs = Some P \<and> Cols P = Cols rhs \<and> Rows P = Rows lhs \<and>
        Matrix_inv P \<and>
        (\<forall>j<Cols rhs. \<forall>i<Rows lhs.
           (\<forall>k<Cols lhs. at lhs k i \<noteq> None \<and> at rhs j k \<noteq> None) \<and>
           at P j i =
             Some (foldl (\<lambda>acc k. acc + the (at lhs k i) * the (at rhs j k)) 0 [0..<Cols lhs]) \<and>
           at P j i = Some (\<Sum>k<Cols lhs. the (at lhs k i) * the (at rhs j k))))"
proof -
  assume lhs: "Matrix_inv lhs" and rhs: "Matrix_inv rhs" and inner: "Rows rhs = Cols lhs"
  have lenl: "Cols lhs * Rows lhs \<le> length (data lhs)" using lhs by (simp add: Matrix_inv_def)
  have lenr: "Cols rhs * Rows rhs \<le> length (data rhs)" using rhs by (simp add: Matrix_inv_def)
  from op_times_elems [OF lhs rhs inner] obtain P where
    P: "op_times lhs rhs = Some P" "Cols P = Cols rhs" "Rows P = Rows lhs" "Matrix_inv P"
    and el: "\<forall>j<Cols rhs. \<forall>i<Rows lhs. at P j i =
              Some (foldl (\<lambda>acc k. acc + data lhs ! (k + i * Cols lhs) *
                                         data rhs ! (j + k * Cols rhs))
                      0 [0..<Cols lhs])"
    by blast
  have "(\<forall>k<Cols lhs. at lhs k i \<noteq> None \<and> at rhs j k \<noteq> None) \<and>
        at P j i =
          Some (foldl (\<lambda>acc k. acc + the (at lhs k i) * the (at rhs j k)) 0 [0..<Cols lhs]) \<and>
        at P j i = Some (\<Sum>k<Cols lhs. the (at lhs k i) * the (at rhs j k))"
    if "j < Cols rhs" "i < Rows lhs" for i j
  proof -
    have l: "at lhs k i = Some (data lhs ! (k + i * Cols lhs))" if "k < Cols lhs" for k
      using that \<open>i < Rows lhs\<close> lenl by (rule at_Some)
    have r: "at rhs j k = Some (data rhs ! (j + k * Cols rhs))" if "k < Cols lhs" for k
      using \<open>j < Cols rhs\<close> that lenr inner by (intro at_Some) simp_all
    have "foldl (\<lambda>acc k. acc + the (at lhs k i) * the (at rhs j k)) 0 [0..<Cols lhs] =
          foldl (\<lambda>acc k. acc + data lhs ! (k + i * Cols lhs) * data rhs ! (j + k * Cols rhs))
            0 [0..<Cols lhs]"
      by (rule foldl_cong) (simp_all add: l r)
    then have f: "at P j i =
        Some (foldl (\<lambda>acc k. acc + the (at lhs k i) * the (at rhs j k)) 0 [0..<Cols lhs])"
      using el that by simp
    then have "at P j i = Some (\<Sum>k<Cols lhs. the (at lhs k i) * the (at rhs j k))"
      by (simp add: foldl_plus_sum)
    with f l r show ?thesis by simp
  qed
  then show ?thesis using P by blast
qed

theorem matrix_multiplication_witness:
  "Matrix_inv (Matrix_il 2 2 [1, 2, 3, 4 :: int]) \<and> Matrix_inv (Matrix_il 2 2 [5, 6, 7, 8 :: int]) \<and>
   Rows (Matrix_il 2 2 [5, 6, 7, 8 :: int]) = Cols (Matrix_il 2 2 [1, 2, 3, 4 :: int]) \<and>
   op_times (Matrix_il 2 2 [1, 2, 3, 4 :: int]) (Matrix_il 2 2 [5, 6, 7, 8]) =
     Some (Matrix_il 2 2 [19, 22, 43, 50]) \<and>
   at (Matrix_il 2 2 [19, 22, 43, 50 :: int]) 1 0 =
     Some (\<Sum>k<2. the (at (Matrix_il 2 2 [1, 2, 3, 4 :: int]) k 0) *
                    the (at (Matrix_il 2 2 [5, 6, 7, 8 :: int]) 1 k))"
proof -
  let ?A = "Matrix_il 2 2 [1, 2, 3, 4 :: int]" and ?B = "Matrix_il 2 2 [5, 6, 7, 8 :: int]"
  have h: "Matrix_inv ?A" "Matrix_inv ?B" "Rows ?B = Cols ?A"
    by (simp_all add: Matrix_il_inv) (simp add: Matrix_il_def)
  have p: "op_times ?A ?B = Some (Matrix_il 2 2 [19, 22, 43, 50])" by code_simp
  have d: "Cols ?B = 2" "Rows ?A = 2" "Cols ?A = 2" by (simp_all add: Matrix_il_def)
  from matrix_multiplication [OF h] obtain P where
    P: "op_times ?A ?B = Some P"
    and el: "\<forall>j<Cols ?B. \<forall>i<Rows ?A.
               (\<forall>k<Cols ?A. at ?A k i \<noteq> None \<and> at ?B j k \<noteq> None) \<and>
               at P j i =
                 Some (foldl (\<lambda>acc k. acc + the (at ?A k i) * the (at ?B j k)) 0 [0..<Cols ?A]) \<and>
               at P j i = Some (\<Sum>k<Cols ?A. the (at ?A k i) * the (at ?B j k))"
    by blast
  have P': "P = Matrix_il 2 2 [19, 22, 43, 50]" using P p by simp
  have pos: "1 < Cols ?B" "0 < Rows ?A" by (simp_all add: d)
  from el [rule_format, OF pos]
  have "at P 1 0 = Some (\<Sum>k<Cols ?A. the (at ?A k 0) * the (at ?B 1 k))" by blast
  then have "at (Matrix_il 2 2 [19, 22, 43, 50 :: int]) 1 0 =
          Some (\<Sum>k<2. the (at ?A k 0) * the (at ?B 1 k))"
    unfolding P' d .
  with h p show ?thesis by simp
qed

lemma sum_delta_right:
  fixes g :: "nat \<Rightarrow> 'a::semiring_1"
  assumes "j < n"
  shows "(\<Sum>k<n. g k * (if j = k then 1 else 0)) = g j"
proof -
  have "(\<Sum>k<n. g k * (if j = k then 1 else 0)) = (\<Sum>k<n. if j = k then g k else 0)"
    by (intro sum.cong) simp_all
  also have "\<dots> = g j" using assms by (simp add: sum.delta')
  finally show ?thesis .
qed

lemma sum_delta_left:
  fixes g :: "nat \<Rightarrow> 'a::semiring_1"
  assumes "i < n"
  shows "(\<Sum>k<n. (if k = i then 1 else 0) * g k) = g i"
proof -
  have "(\<Sum>k<n. (if k = i then 1 else 0) * g k) = (\<Sum>k<n. if k = i then g k else 0)"
    by (intro sum.cong) simp_all
  also have "\<dots> = g i" using assms by (simp add: sum.delta)
  finally show ?thesis .
qed

text \<open>
  C4: \<open>identity<N>()\<close> returns an \<open>N\<close> by \<open>N\<close> matrix with \<open>1\<close> at every \<open>(i, i)\<close> and \<open>0\<close>
  elsewhere, and for every \<open>N\<close> by \<open>N\<close> matrix \<open>A\<close> over a semiring with one (the integers,
  with or without wrap-around, among them) that satisfies the storage invariant, both
  \<open>A * identity<N>()\<close> and \<open>identity<N>() * A\<close> are \<open>A\<close>.
\<close>

theorem identity_law:
  "\<exists>I :: ('a::semiring_1) Matrix. identity N = Some I \<and> Cols I = N \<and> Rows I = N \<and> Matrix_inv I \<and>
     (\<forall>c<N. \<forall>r<N. at I c r = Some (if c = r then 1 else 0)) \<and>
     (\<forall>A. Matrix_inv A \<and> Cols A = N \<and> Rows A = N \<longrightarrow>
        op_times A I = Some A \<and> op_times I A = Some A)"
proof -
  from identity_elems [of N] obtain I :: "'a Matrix" where
    I: "identity N = Some I" "Cols I = N" "Rows I = N" "Matrix_inv I"
    and Iat: "\<forall>c<N. \<forall>r<N. at I c r = Some (if c = r then 1 else 0)"
    by blast
  have lenI: "Cols I * Rows I \<le> length (data I)" using I(4) by (simp add: Matrix_inv_def)
  have Iel: "data I ! (c + r * N) = (if c = r then 1 else 0)" if "c < N" "r < N" for c r
    using at_Some [of c I r] Iat that I(2,3) lenI by simp
  have "op_times A I = Some A \<and> op_times I A = Some A"
    if A: "Matrix_inv A" and dims: "Cols A = N" "Rows A = N" for A :: "'a Matrix"
  proof -
    have lenA: "Cols A * Rows A \<le> length (data A)" using A by (simp add: Matrix_inv_def)
    have Aat: "at A c r = Some (data A ! (c + r * N))" if "c < N" "r < N" for c r
      using at_Some [of c A r] that dims lenA by simp
    have right: "op_times A I = Some A"
    proof -
      from op_times_elems [OF A I(4)] I(3) dims obtain P where
        P: "op_times A I = Some P" "Cols P = N" "Rows P = N" "Matrix_inv P"
        and el: "\<forall>j<N. \<forall>i<N. at P j i =
              Some (foldl (\<lambda>acc k. acc + data A ! (k + i * N) * data I ! (j + k * N)) 0 [0..<N])"
        using I(2) by auto
      have "at P j i = at A j i" if "j < N" "i < N" for j i
      proof -
        have "at P j i = Some (\<Sum>k<N. data A ! (k + i * N) * data I ! (j + k * N))"
          using el that by (simp add: foldl_plus_sum)
        also have "(\<Sum>k<N. data A ! (k + i * N) * data I ! (j + k * N)) =
                   (\<Sum>k<N. data A ! (k + i * N) * (if j = k then 1 else 0))"
          using that by (intro sum.cong) (simp_all add: Iel)
        also have "\<dots> = data A ! (j + i * N)" using that(1) by (rule sum_delta_right)
        finally show ?thesis using Aat [OF that] by simp
      qed
      then have "data P = data A" using P A dims by (intro Matrix_eqI) simp_all
      then have "P = A" using P(2,3) dims by simp
      with P(1) show ?thesis by simp
    qed
    have left: "op_times I A = Some A"
    proof -
      from op_times_elems [OF I(4) A] I(2,3) dims obtain P where
        P: "op_times I A = Some P" "Cols P = N" "Rows P = N" "Matrix_inv P"
        and el: "\<forall>j<N. \<forall>i<N. at P j i =
              Some (foldl (\<lambda>acc k. acc + data I ! (k + i * N) * data A ! (j + k * N)) 0 [0..<N])"
        by auto
      have "at P j i = at A j i" if "j < N" "i < N" for j i
      proof -
        have "at P j i = Some (\<Sum>k<N. data I ! (k + i * N) * data A ! (j + k * N))"
          using el that by (simp add: foldl_plus_sum)
        also have "(\<Sum>k<N. data I ! (k + i * N) * data A ! (j + k * N)) =
                   (\<Sum>k<N. (if k = i then 1 else 0) * data A ! (j + k * N))"
          using that by (intro sum.cong) (simp_all add: Iel)
        also have "\<dots> = data A ! (j + i * N)" using that(2) by (rule sum_delta_left)
        finally show ?thesis using Aat [OF that] by simp
      qed
      then have "data P = data A" using P A dims by (intro Matrix_eqI) simp_all
      then have "P = A" using P(2,3) dims by simp
      with P(1) show ?thesis by simp
    qed
    from right left show ?thesis ..
  qed
  with I Iat show ?thesis by blast
qed

theorem identity_law_witness:
  "identity 2 = Some (Matrix_il 2 2 [1, 0, 0, 1 :: int]) \<and>
   Matrix_inv (Matrix_il 2 2 [1, 2, 3, 4 :: int]) \<and>
   op_times (Matrix_il 2 2 [1, 2, 3, 4 :: int]) (Matrix_il 2 2 [1, 0, 0, 1]) =
     Some (Matrix_il 2 2 [1, 2, 3, 4]) \<and>
   op_times (Matrix_il 2 2 [1, 0, 0, 1]) (Matrix_il 2 2 [1, 2, 3, 4 :: int]) =
     Some (Matrix_il 2 2 [1, 2, 3, 4])"
proof -
  let ?A = "Matrix_il 2 2 [1, 2, 3, 4 :: int]"
  have h: "Matrix_inv ?A \<and> Cols ?A = 2 \<and> Rows ?A = 2"
    by (simp add: Matrix_il_inv) (simp add: Matrix_il_def)
  have i: "identity 2 = Some (Matrix_il 2 2 [1, 0, 0, 1 :: int])" by code_simp
  from identity_law [of 2, where ?'a = int] i
  have "\<forall>A. Matrix_inv A \<and> Cols A = 2 \<and> Rows A = 2 \<longrightarrow>
          op_times A (Matrix_il 2 2 [1, 0, 0, 1 :: int]) = Some A \<and>
          op_times (Matrix_il 2 2 [1, 0, 0, 1 :: int]) A = Some A"
    by auto
  with h i show ?thesis by blast
qed

section \<open>Properties of slice\<close>

lemma copy_row_result:
  "a + n \<le> length src \<Longrightarrow> b + n \<le> length dst \<Longrightarrow>
   \<exists>d. copy_row src a (a + n) b dst = Some d \<and> length d = length dst \<and>
       (\<forall>k<length dst. d ! k = (if b \<le> k \<and> k < b + n then src ! (a + (k - b)) else dst ! k))"
proof (induction n arbitrary: a b dst)
  case 0
  then show ?case by (subst copy_row.simps) auto
next
  case (Suc n)
  let ?dst' = "dst[b := src ! a]"
  have "Suc a + n \<le> length src" "Suc b + n \<le> length ?dst'" using Suc.prems by simp_all
  from Suc.IH [OF this] obtain d where
    d: "copy_row src (Suc a) (Suc a + n) (Suc b) ?dst' = Some d" "length d = length dst"
    and el: "\<forall>k<length dst. d ! k =
       (if Suc b \<le> k \<and> k < Suc b + n then src ! (Suc a + (k - Suc b)) else ?dst' ! k)"
    by auto
  have step: "copy_row src a (a + Suc n) b dst = copy_row src (Suc a) (Suc a + n) (Suc b) ?dst'"
    using Suc.prems by (subst copy_row.simps) simp
  have "d ! k = (if b \<le> k \<and> k < b + Suc n then src ! (a + (k - b)) else dst ! k)"
    if "k < length dst" for k
  proof (cases "k = b")
    case True
    then show ?thesis using el that by simp
  next
    case False
    then show ?thesis using el that by (auto simp add: Suc_diff_Suc)
  qed
  then show ?case using step d by simp
qed

lemma row_window:
  assumes "c < NC" "lc \<le> (NC::nat)"
  shows "(i * NC \<le> c + r * NC \<and> c + r * NC < i * NC + lc) \<longleftrightarrow> (r = i \<and> c < lc)"
proof (cases r i rule: linorder_cases)
  case less
  then have "Suc r * NC \<le> i * NC" by (intro mult_le_mono1) simp
  then have "c + r * NC < i * NC" using assms(1) by simp
  then show ?thesis using less by simp
next
  case equal
  then show ?thesis by simp
next
  case greater
  then have "Suc i * NC \<le> r * NC" by (intro mult_le_mono1) simp
  then have "i * NC + lc \<le> c + r * NC" using assms(2) by simp
  then show ?thesis using greater by simp
qed

lemma slice_elems:
  assumes inv: "Matrix_inv m"
  shows "\<exists>S. slice m NewCols NewRows = Some S \<and> Cols S = NewCols \<and> Rows S = NewRows \<and>
           length (data S) = NewCols * NewRows +
             (if Cols m = NewCols then min (Rows m) NewRows * Cols m else 0) \<and>
           (\<forall>c<NewCols. \<forall>r<NewRows. at S c r =
              Some (if c < min (Cols m) NewCols \<and> r < min (Rows m) NewRows
                    then data m ! (c + r * Cols m) else 0))"
proof (cases "Cols m = NewCols")
  case True
  define lr where "lr = (if Rows m < NewRows then Rows m else NewRows)"
  define n where "n = lr * Cols m"
  define S where "S = (Matrix_default NewCols NewRows)
                        \<lparr>data := take n (data m) @ replicate (NewCols * NewRows) 0\<rparr>"
  have lr: "lr = min (Rows m) NewRows" by (simp add: lr_def min_def)
  have len: "length (data m) = Cols m * Rows m" using inv by (simp add: Matrix_inv_def)
  have "lr * Cols m \<le> Rows m * Cols m" using lr by (intro mult_le_mono1) simp
  then have n: "n \<le> length (data m)" using len by (simp add: n_def mult.commute)
  have S: "slice m NewCols NewRows = Some S"
    using True n by (simp add: slice_def Let_def S_def n_def lr_def Matrix_default_def)
  have dS: "data S = take n (data m) @ replicate (NewCols * NewRows) 0"
    and cS: "Cols S = NewCols" and rS: "Rows S = NewRows"
    by (simp_all add: S_def Matrix_default_def)
  have lS: "length (data S) = n + NewCols * NewRows" using n by (simp add: dS)
  have "at S c r = Some (if c < min (Cols m) NewCols \<and> r < min (Rows m) NewRows
                    then data m ! (c + r * Cols m) else 0)"
    if "c < NewCols" "r < NewRows" for c r
  proof (cases "r < lr")
    case in_rows: True
    have "c + r * Cols m < Cols m * lr" using that(1) True in_rows by (intro index_less) simp_all
    then have lt: "c + r * Cols m < n" by (simp add: n_def mult.commute)
    then have "data S ! (c + r * Cols m) = data m ! (c + r * Cols m)"
      using n by (simp add: dS nth_append)
    moreover have "c < min (Cols m) NewCols \<and> r < min (Rows m) NewRows"
      using that(1) True in_rows lr by simp
    ultimately show ?thesis using lt lS cS True by (simp add: at_def)
  next
    case False
    then have "lr * Cols m \<le> r * Cols m" by (intro mult_le_mono1) simp
    then have ge: "n \<le> c + r * Cols m" unfolding n_def by (rule trans_le_add2)
    have "c + r * NewCols < NewCols * NewRows" using that by (rule index_less)
    then have lt: "c + r * Cols m < NewCols * NewRows" using True by simp
    then have "c + r * Cols m - n < NewCols * NewRows" by simp
    then have "data S ! (c + r * Cols m) = 0"
      using ge n by (simp add: dS nth_append)
    moreover have "\<not> (c < min (Cols m) NewCols \<and> r < min (Rows m) NewRows)"
      using False lr by simp
    ultimately show ?thesis using lt lS cS True by (auto simp add: at_def)
  qed
  moreover have "length (data S) = NewCols * NewRows + min (Rows m) NewRows * Cols m"
    using lS by (simp add: n_def lr)
  ultimately show ?thesis using S cS rS True by auto
next
  case False
  let ?C = "Cols m" and ?R = "Rows m"
  define lr where "lr = (if ?R < NewRows then ?R else NewRows)"
  define lc where "lc = (if ?C < NewCols then ?C else NewCols)"
  have lr: "lr = min ?R NewRows" by (simp add: lr_def min_def)
  have lc: "lc = min ?C NewCols" by (simp add: lc_def min_def)
  let ?body = "\<lambda>i sl.
                       let thisRowBegin = i * Cols m;
                           thisRowEnd = thisRowBegin + lc;
                           slicedRowBegin = i * NewCols
                       in map_option (\<lambda>d. sl\<lparr>data := d\<rparr>)
                            (copy_row (data m) thisRowBegin thisRowEnd slicedRowBegin (data sl))"
  let ?Inv = "\<lambda>i sl. Cols sl = NewCols \<and> Rows sl = NewRows \<and>
       length (data sl) = NewCols * NewRows \<and>
       (\<forall>c<NewCols. \<forall>r<NewRows. at sl c r =
          Some (if r < i \<and> c < lc then data m ! (c + r * ?C) else 0))"
  have len: "length (data m) = ?C * ?R" using inv by (simp add: Matrix_inv_def)
  have step: "\<exists>sl'. ?body i sl = Some sl' \<and> ?Inv (Suc i) sl'"
    if "i < lr" "?Inv i sl" for i sl
  proof -
    from that(2) have dims: "Cols sl = NewCols" "Rows sl = NewRows"
      "length (data sl) = NewCols * NewRows"
      and el: "\<forall>c<NewCols. \<forall>r<NewRows. at sl c r =
          Some (if r < i \<and> c < lc then data m ! (c + r * ?C) else 0)"
      by simp_all
    have iR: "i < ?R" and iN: "i < NewRows" using that(1) lr by simp_all
    have "Suc i * ?C \<le> ?R * ?C" using iR by (intro mult_le_mono1) simp
    then have src: "i * ?C + lc \<le> length (data m)" using len lc by (simp add: mult.commute)
    have "Suc i * NewCols \<le> NewRows * NewCols" using iN by (intro mult_le_mono1) simp
    then have dst: "i * NewCols + lc \<le> length (data sl)"
      using dims(3) lc by (simp add: mult.commute)
    from copy_row_result [OF src dst] obtain d where
      d: "copy_row (data m) (i * ?C) (i * ?C + lc) (i * NewCols) (data sl) = Some d"
      "length d = length (data sl)"
      and del: "\<forall>k<length (data sl). d ! k =
         (if i * NewCols \<le> k \<and> k < i * NewCols + lc
          then data m ! (i * ?C + (k - i * NewCols)) else data sl ! k)"
      by blast
    let ?sl' = "sl\<lparr>data := d\<rparr>"
    have "at ?sl' c r = Some (if r < Suc i \<and> c < lc then data m ! (c + r * ?C) else 0)"
      if "c < NewCols" "r < NewRows" for c r
    proof -
      have idx: "c + r * NewCols < length (data sl)"
        using index_less [OF that] dims(3) by simp
      have "at sl c r = Some (data sl ! (c + r * NewCols))"
        using idx dims(1) by (simp add: at_def)
      then have old: "data sl ! (c + r * NewCols) =
                 (if r < i \<and> c < lc then data m ! (c + r * ?C) else 0)"
        using el that by simp
      have win: "(i * NewCols \<le> c + r * NewCols \<and> c + r * NewCols < i * NewCols + lc) \<longleftrightarrow>
                 (r = i \<and> c < lc)"
        using that(1) lc by (intro row_window) simp_all
      have new: "d ! (c + r * NewCols) =
            (if r = i \<and> c < lc then data m ! (i * ?C + (c + r * NewCols - i * NewCols))
             else data sl ! (c + r * NewCols))"
        using del idx win by simp
      have "at ?sl' c r = Some (d ! (c + r * NewCols))"
        using idx d(2) dims(1) by (simp add: at_def)
      also have "d ! (c + r * NewCols) =
            (if r < Suc i \<and> c < lc then data m ! (c + r * ?C) else 0)"
        unfolding new old by (auto simp add: less_Suc_eq add.commute)
      finally show ?thesis .
    qed
    then show ?thesis using d dims by (simp add: Let_def)
  qed
  have init: "?Inv 0 (Matrix_default NewCols NewRows)"
    by (simp add: Matrix_default_at) (simp add: Matrix_default_def)
  have "\<exists>S. for_loop 0 lr ?body (Matrix_default NewCols NewRows) = Some S \<and> ?Inv lr S"
  proof (rule for_loop_rule [where I = ?Inv, OF init])
    show "0 \<le> lr" by simp
  next
    fix i sl assume "i < lr" and "?Inv i sl"
    then show "\<exists>sl'. ?body i sl = Some sl' \<and> ?Inv (Suc i) sl'" by (rule step)
  qed
  then obtain S where S: "for_loop 0 lr ?body (Matrix_default NewCols NewRows) = Some S"
    and SI: "?Inv lr S" by blast
  have "slice m NewCols NewRows = Some S"
    using False S unfolding lr_def lc_def by (simp add: slice_def Let_def)
  moreover have "at S c r = Some (if c < min ?C NewCols \<and> r < min ?R NewRows
                    then data m ! (c + r * ?C) else 0)"
    if "c < NewCols" "r < NewRows" for c r
  proof -
    have "at S c r = Some (if r < lr \<and> c < lc then data m ! (c + r * ?C) else 0)"
      using SI that by simp
    then show ?thesis unfolding lr lc by (simp add: conj_commute)
  qed
  ultimately show ?thesis using SI False by simp
qed



section \<open>The storage invariant\<close>

lemma slice_same_cols_length:
  assumes "Matrix_inv A"
  shows "\<exists>S. slice A (Cols A) NewRows = Some S \<and>
           length (data S) = Cols A * NewRows + min (Rows A) NewRows * Cols A"
  using slice_elems [OF assms, of "Cols A" NewRows] by auto

lemma other_operations_keep_invariant:
  "Matrix_inv (Matrix_default c r)"
  "Matrix_inv (Matrix_il c r il)"
  "\<exists>I. identity N = Some I \<and> Matrix_inv I"
  "Matrix_inv A \<Longrightarrow> \<exists>t. transpose_m A = Some t \<and> Matrix_inv t"
  "Matrix_inv A \<Longrightarrow> \<exists>B. convert cast A = Some B \<and> Matrix_inv B"
  "Cols A \<noteq> NewCols \<Longrightarrow> Matrix_inv A \<Longrightarrow>
     \<exists>S. slice A NewCols NewRows = Some S \<and> Matrix_inv S"
proof -
  show "Matrix_inv (Matrix_default c r)" by (rule Matrix_default_inv)
  show "Matrix_inv (Matrix_il c r il)" by (rule Matrix_il_inv)
  show "\<exists>I. identity N = Some I \<and> Matrix_inv I" using identity_elems [of N] by blast
  show "\<exists>t. transpose_m A = Some t \<and> Matrix_inv t" if "Matrix_inv A"
    using transpose_m_elems [OF that] by blast
  show "\<exists>B. convert cast A = Some B \<and> Matrix_inv B" if "Matrix_inv A"
    using that by (simp add: convert_eq) (simp add: Matrix_inv_def)
  show "\<exists>S. slice A NewCols NewRows = Some S \<and> Matrix_inv S"
    if "Cols A \<noteq> NewCols" and "Matrix_inv A"
    using slice_elems [OF that(2), of NewCols NewRows] that(1)
    by (auto simp add: Matrix_inv_def)
qed

text \<open>
  C1: the storage of every matrix holds exactly \<open>Cols * Rows\<close> elements. The constructors
  and the other operations that return a matrix keep this, and so does \<open>slice\<close> when the number of columns
  changes. When it does not change, \<open>slice\<close> inserts the copied elements in front of the
  zeros of the default-constructed result instead of overwriting them: slicing the 2 by 2
  matrix \<open>[1, 2, 3, 4]\<close> to 2 by 2 returns a matrix whose storage has 8 elements.
\<close>

theorem slice_same_cols_storage_length:
  "slice (Matrix_il 2 2 [1, 2, 3, 4 :: int]) 2 2 =
     Some \<lparr>Cols = 2, Rows = 2, data = [1, 2, 3, 4, 0, 0, 0, 0]\<rparr> \<and>
   length (data (the (slice (Matrix_il 2 2 [1, 2, 3, 4 :: int]) 2 2))) = 8 \<and>
   \<not> Matrix_inv (the (slice (Matrix_il 2 2 [1, 2, 3, 4 :: int]) 2 2))"
proof -
  have s: "slice (Matrix_il 2 2 [1, 2, 3, 4 :: int]) 2 2 =
     Some \<lparr>Cols = 2, Rows = 2, data = [1, 2, 3, 4, 0, 0, 0, 0]\<rparr>"
    by code_simp
  show ?thesis unfolding s by (simp add: Matrix_inv_def)
qed

end
